theory Spec2Isabelle
  imports Main
begin

section \<open>Legacy context of the fiber reconciler\<close>

text \<open>
  The module keeps two stack cursors (the merged context object and the
  did-perform-work flag), the slot \<open>previousContext\<close>, and reads and writes
  fields of fibers and of their instances. Objects are modelled in an explicit
  store, so that reference identity (\<open>===\<close>) is equality of addresses.
\<close>

subsection \<open>Values and objects\<close>

type_synonym ref = nat
type_synonym fid = nat
type_synonym iid = nat

text \<open>\<open>Builtin n\<close> is the value read from \<open>Object.prototype\<close> under the name \<open>n\<close>.\<close>

datatype jsval =
  Undefined | Null | VBool bool | VNum int | VStr string | VRef ref | Builtin string

text \<open>
  An object is an ordinary object whose prototype is \<open>Object.prototype\<close>. It
  is given by the list of its own enumerable properties, in the order in which
  \<open>for ... in\<close> visits them (keys that look like array indices, which
  JavaScript visits first, get no special place). \<open>obj_keys\<close> and \<open>obj_get\<close>
  look at the own properties only.
\<close>

type_synonym obj = "(string \<times> jsval) list"

definition obj_keys :: "obj \<Rightarrow> string list" where
  "obj_keys ob = map fst ob"

definition obj_get :: "obj \<Rightarrow> string \<Rightarrow> jsval" where
  "obj_get ob k = (case map_of ob k of None \<Rightarrow> Undefined | Some v \<Rightarrow> v)"

text \<open>
  The names every such object inherits from \<open>Object.prototype\<close>. None of
  them is enumerable, so \<open>for ... in\<close> and the spread skip them, while the
  operator \<open>in\<close> and a property read find them.
\<close>

definition objectPrototypeKeys :: "string list" where
  "objectPrototypeKeys =
     [''constructor'', ''__defineGetter__'', ''__defineSetter__'', ''hasOwnProperty'',
      ''__lookupGetter__'', ''__lookupSetter__'', ''isPrototypeOf'',
      ''propertyIsEnumerable'', ''toString'', ''valueOf'', ''__proto__'',
      ''toLocaleString'']"

text \<open>\<open>key in obj\<close>, for an object with the own keys \<open>ownKeys\<close>.\<close>

definition obj_in :: "string \<Rightarrow> string list \<Rightarrow> bool" where
  "obj_in k ownKeys \<longleftrightarrow> k \<in> set ownKeys \<or> k \<in> set objectPrototypeKeys"

text \<open>\<open>obj[key]\<close> as a read: the own property, else the inherited one, else undefined.\<close>

definition obj_read :: "obj \<Rightarrow> string \<Rightarrow> jsval" where
  "obj_read ob k =
     (case map_of ob k of
        Some v \<Rightarrow> v
      | None \<Rightarrow> if k \<in> set objectPrototypeKeys then Builtin k else Undefined)"

fun obj_set :: "string \<Rightarrow> jsval \<Rightarrow> obj \<Rightarrow> obj" where
  "obj_set k v [] = [(k, v)]"
| "obj_set k v (p # ps) = (if fst p = k then (k, v) # ps else p # obj_set k v ps)"

text \<open>
  \<open>obj[key] = v\<close> as a write. The inherited \<open>__proto__\<close> is an accessor: a
  write to it runs the setter and defines no own property. Every other write
  defines or updates an own property.
\<close>

definition obj_put :: "string \<Rightarrow> jsval \<Rightarrow> obj \<Rightarrow> obj" where
  "obj_put k v ob =
     (if k = ''__proto__'' \<and> k \<notin> set (obj_keys ob) then ob else obj_set k v ob)"

text \<open>
  \<open>{...a, ...b}\<close>: a fresh object receiving the own enumerable properties of
  \<open>a\<close>, then of \<open>b\<close>, each defined as an own property.
\<close>

definition obj_assign :: "obj \<Rightarrow> obj \<Rightarrow> obj" where
  "obj_assign target src = fold (\<lambda>p acc. obj_set (fst p) (snd p) acc) src target"

definition spread2 :: "obj \<Rightarrow> obj \<Rightarrow> obj" where
  "spread2 a b = obj_assign (obj_assign [] a) b"

definition emptyObject :: ref where
  "emptyObject = 0"

subsection \<open>Fibers and instances\<close>

datatype TypeOfWork = ClassComponent | HostRoot | OtherWork nat

text \<open>
  \<open>contextTypes\<close> and \<open>childContextTypes\<close> are given by their own
  enumerable keys (\<open>None\<close> when null or undefined). \<open>componentName\<close> stands for the result of
  \<open>getComponentName(fiber)\<close>, whose definition is outside this module.
\<close>

record ftype =
  contextTypes :: "string list option"
  childContextTypes :: "string list option"
  componentName :: "string option"

record fiber =
  tag :: TypeOfWork
  type :: ftype
  stateNode :: "iid option"
  return :: "fid option"

text \<open>
  The fields of \<open>fiber.stateNode\<close> that the module touches. \<open>getChildContext\<close>
  is \<open>None\<close> when \<open>typeof instance.getChildContext\<close> is not \<open>'function'\<close>,
  and otherwise the own properties of the value the call returns. \<open>context_obj\<close>
  is the field read from the stateNode of a host root.
\<close>

record Instance =
  reactInternalMemoizedUnmaskedChildContext :: "ref option"
  reactInternalMemoizedMaskedChildContext :: "ref option"
  reactInternalMemoizedMergedChildContext :: "ref option"
  getChildContext :: "obj option"
  context_obj :: "ref option"

subsection \<open>The stack cursor\<close>

text \<open>
  Modelled from the spec: the functions \<open>createCursor\<close>, \<open>push\<close> and \<open>pop\<close>
  of the stack module are passed in by the caller and are not part of this
  module. A register is a LIFO sequence of (owner, value) frames, newest first;
  \<open>current\<close> reads the value of the top frame, or the default when there is none;
  \<open>pop\<close> removes the top frame and leaves an empty register as it is. The
  owner is not used for addressing. The field \<open>cursor\<close> is the property of that
  name on the cursor object; no operation of the register defines it.
\<close>

record 'a StackCursor =
  default_value :: 'a
  frames :: "(fid \<times> 'a) list"
  cursor :: "'a option"

definition createCursor :: "'a \<Rightarrow> 'a StackCursor" where
  "createCursor d = \<lparr>default_value = d, frames = [], cursor = None\<rparr>"

definition current :: "'a StackCursor \<Rightarrow> 'a" where
  "current c = (case frames c of [] \<Rightarrow> default_value c | fr # _ \<Rightarrow> snd fr)"

definition push :: "'a StackCursor \<Rightarrow> 'a \<Rightarrow> fid \<Rightarrow> 'a StackCursor" where
  "push c v owner = c\<lparr>frames := (owner, v) # frames c\<rparr>"

definition pop :: "'a StackCursor \<Rightarrow> fid \<Rightarrow> 'a StackCursor" where
  "pop c owner = (case frames c of [] \<Rightarrow> c | _ # rest \<Rightarrow> c\<lparr>frames := rest\<rparr>)"

subsection \<open>The state of the module\<close>

datatype error =
  UnexpectedContextOnStack
  | KeyNotDefinedInChildContextTypes string string
  | ExpectedInstance
  | ExpectedMountedClassComponent
  | DetachedSubtreeParent
  | TypeError

text \<open>
  \<open>dev\<close> is the build flag \<open>__DEV__\<close>. \<open>warnings\<close> records the component names
  passed to \<open>warning\<close>, and \<open>getChildContextCalls\<close> the instances whose
  \<open>getChildContext\<close> was invoked, newest first.
\<close>

record state =
  contextStackCursor :: "ref StackCursor"
  didPerformWorkStackCursor :: "bool StackCursor"
  previousContext :: ref
  fibers :: "fid \<Rightarrow> fiber"
  instances :: "iid \<Rightarrow> Instance"
  objects :: "ref \<Rightarrow> obj"
  nextRef :: ref
  dev :: bool
  warnedAboutMissingGetChildContext :: "string list"
  warnings :: "string list"
  getChildContextCalls :: "iid list"

text \<open>Allocation of a fresh object: the next unused address.\<close>

definition alloc :: "obj \<Rightarrow> state \<Rightarrow> ref \<times> state" where
  "alloc ob s = (nextRef s, s\<lparr>objects := (objects s)(nextRef s := ob), nextRef := Suc (nextRef s)\<rparr>)"

definition getComponentNameOrUnknown :: "fiber \<Rightarrow> string" where
  "getComponentNameOrUnknown fb =
     (case componentName (type fb) of
        None \<Rightarrow> ''Unknown''
      | Some n \<Rightarrow> if n = [] then ''Unknown'' else n)"

subsection \<open>The operations\<close>

definition isContextConsumer :: "fiber \<Rightarrow> bool" where
  "isContextConsumer fb \<longleftrightarrow> tag fb = ClassComponent \<and> contextTypes (type fb) \<noteq> None"

definition isContextProvider :: "fiber \<Rightarrow> bool" where
  "isContextProvider fb \<longleftrightarrow> tag fb = ClassComponent \<and> childContextTypes (type fb) \<noteq> None"

definition getUnmaskedContext :: "fid \<Rightarrow> state \<Rightarrow> ref" where
  "getUnmaskedContext workInProgress s =
     (if isContextProvider (fibers s workInProgress) then previousContext s
      else current (contextStackCursor s))"

definition cacheContext :: "fid \<Rightarrow> ref \<Rightarrow> ref \<Rightarrow> state \<Rightarrow> error + state" where
  "cacheContext workInProgress unmaskedContext maskedContext s =
     (case stateNode (fibers s workInProgress) of
        None \<Rightarrow> Inl TypeError
      | Some i \<Rightarrow>
          Inr (s\<lparr>instances := (instances s)(i := (instances s i)
                 \<lparr>reactInternalMemoizedUnmaskedChildContext := Some unmaskedContext,
                  reactInternalMemoizedMaskedChildContext := Some maskedContext\<rparr>)\<rparr>))"

definition maskContext :: "string list \<Rightarrow> obj \<Rightarrow> obj" where
  "maskContext keys unmasked = fold (\<lambda>key ctx. obj_put key (obj_read unmasked key) ctx) keys []"

text \<open>
  The second half of \<open>getMaskedContext\<close>: build the masked object, cache it
  when there is an instance, return it. The validation by \<open>checkPropTypes\<close>
  in development builds only reports and is left out.
\<close>

definition createMaskedContext ::
  "fid \<Rightarrow> string list \<Rightarrow> ref \<Rightarrow> state \<Rightarrow> error + (ref option \<times> state)" where
  "createMaskedContext workInProgress keys unmaskedContext s =
     (case alloc (maskContext keys (objects s unmaskedContext)) s of
        (ctx, s1) \<Rightarrow>
          (case stateNode (fibers s workInProgress) of
             None \<Rightarrow> Inr (Some ctx, s1)
           | Some _ \<Rightarrow>
               (case cacheContext workInProgress unmaskedContext ctx s1 of
                  Inl e \<Rightarrow> Inl e
                | Inr s2 \<Rightarrow> Inr (Some ctx, s2))))"

definition getMaskedContext :: "fid \<Rightarrow> ref \<Rightarrow> state \<Rightarrow> error + (ref option \<times> state)" where
  "getMaskedContext workInProgress unmaskedContext s =
     (case contextTypes (type (fibers s workInProgress)) of
        None \<Rightarrow> Inr (Some emptyObject, s)
      | Some keys \<Rightarrow>
          (case stateNode (fibers s workInProgress) of
             None \<Rightarrow> createMaskedContext workInProgress keys unmaskedContext s
           | Some i \<Rightarrow>
               if reactInternalMemoizedUnmaskedChildContext (instances s i) = Some unmaskedContext
               then Inr (reactInternalMemoizedMaskedChildContext (instances s i), s)
               else createMaskedContext workInProgress keys unmaskedContext s))"

definition hasContextChanged :: "state \<Rightarrow> bool" where
  "hasContextChanged s = current (didPerformWorkStackCursor s)"

definition popContextProvider :: "fid \<Rightarrow> state \<Rightarrow> state" where
  "popContextProvider f s =
     (if \<not> isContextProvider (fibers s f) then s
      else
        (let s1 = s\<lparr>didPerformWorkStackCursor := pop (didPerformWorkStackCursor s) f\<rparr>
         in s1\<lparr>contextStackCursor := pop (contextStackCursor s1) f\<rparr>))"

definition popTopLevelContextObject :: "fid \<Rightarrow> state \<Rightarrow> state" where
  "popTopLevelContextObject f s =
     (let s1 = s\<lparr>didPerformWorkStackCursor := pop (didPerformWorkStackCursor s) f\<rparr>
      in s1\<lparr>contextStackCursor := pop (contextStackCursor s1) f\<rparr>)"

definition pushTopLevelContextObject :: "fid \<Rightarrow> ref \<Rightarrow> bool \<Rightarrow> state \<Rightarrow> error + state" where
  "pushTopLevelContextObject f ctx didChange s =
     (if cursor (contextStackCursor s) \<noteq> None then Inl UnexpectedContextOnStack
      else
        (let s1 = s\<lparr>contextStackCursor := push (contextStackCursor s) ctx f\<rparr>
         in Inr (s1\<lparr>didPerformWorkStackCursor := push (didPerformWorkStackCursor s1) didChange f\<rparr>)))"

text \<open>
  The loop over the keys of the child context. Each round evaluates
  \<open>contextKey in childContextTypes\<close>, which throws when \<open>childContextTypes\<close>
  is null and is true for the declared keys and for the names inherited from
  \<open>Object.prototype\<close>; the invariant stops the loop at the first key for
  which it is false.
\<close>

fun checkChildContextKeys :: "fiber \<Rightarrow> string list \<Rightarrow> error option" where
  "checkChildContextKeys fb [] = None"
| "checkChildContextKeys fb (contextKey # rest) =
     (case childContextTypes (type fb) of
        None \<Rightarrow> Some TypeError
      | Some declared \<Rightarrow>
          if obj_in contextKey declared then checkChildContextKeys fb rest
          else Some (KeyNotDefinedInChildContextTypes (getComponentNameOrUnknown fb) contextKey))"

definition warnMissingGetChildContext :: "fiber \<Rightarrow> state \<Rightarrow> state" where
  "warnMissingGetChildContext fb s =
     (if dev s then
        (let name = getComponentNameOrUnknown fb in
         if name \<in> set (warnedAboutMissingGetChildContext s) then s
         else s\<lparr>warnedAboutMissingGetChildContext := name # warnedAboutMissingGetChildContext s,
                warnings := name # warnings s\<rparr>)
      else s)"

definition processChildContext :: "fid \<Rightarrow> ref \<Rightarrow> state \<Rightarrow> error + (ref \<times> state)" where
  "processChildContext f parentContext s =
     (let fb = fibers s f in
      case stateNode fb of
        None \<Rightarrow> Inl TypeError
      | Some i \<Rightarrow>
          (case getChildContext (instances s i) of
             None \<Rightarrow> Inr (parentContext, warnMissingGetChildContext fb s)
           | Some childContext \<Rightarrow>
               (let s1 = s\<lparr>getChildContextCalls := i # getChildContextCalls s\<rparr> in
                case checkChildContextKeys fb (obj_keys childContext) of
                  Some e \<Rightarrow> Inl e
                | None \<Rightarrow> Inr (alloc (spread2 (objects s1 parentContext) childContext) s1))))"

definition pushContextProvider :: "fid \<Rightarrow> state \<Rightarrow> bool \<times> state" where
  "pushContextProvider workInProgress s =
     (if \<not> isContextProvider (fibers s workInProgress) then (False, s)
      else
        (let memoizedMergedChildContext =
               (case stateNode (fibers s workInProgress) of
                  None \<Rightarrow> emptyObject
                | Some i \<Rightarrow>
                    (case reactInternalMemoizedMergedChildContext (instances s i) of
                       None \<Rightarrow> emptyObject
                     | Some m \<Rightarrow> m));
             s1 = s\<lparr>previousContext := current (contextStackCursor s)\<rparr>;
             s2 = s1\<lparr>contextStackCursor :=
                       push (contextStackCursor s1) memoizedMergedChildContext workInProgress\<rparr>;
             s3 = s2\<lparr>didPerformWorkStackCursor :=
                       push (didPerformWorkStackCursor s2)
                            (current (didPerformWorkStackCursor s2)) workInProgress\<rparr>
         in (True, s3)))"

definition invalidateContextProvider :: "fid \<Rightarrow> bool \<Rightarrow> state \<Rightarrow> error + state" where
  "invalidateContextProvider workInProgress didChange s =
     (case stateNode (fibers s workInProgress) of
        None \<Rightarrow> Inl ExpectedInstance
      | Some i \<Rightarrow>
          if didChange then
            (case processChildContext workInProgress (previousContext s) s of
               Inl e \<Rightarrow> Inl e
             | Inr (mergedContext, s1) \<Rightarrow>
                 (let s2 = s1\<lparr>instances := (instances s1)(i := (instances s1 i)
                                \<lparr>reactInternalMemoizedMergedChildContext := Some mergedContext\<rparr>)\<rparr>;
                      s3 = s2\<lparr>didPerformWorkStackCursor :=
                                pop (didPerformWorkStackCursor s2) workInProgress\<rparr>;
                      s4 = s3\<lparr>contextStackCursor := pop (contextStackCursor s3) workInProgress\<rparr>;
                      s5 = s4\<lparr>contextStackCursor :=
                                push (contextStackCursor s4) mergedContext workInProgress\<rparr>;
                      s6 = s5\<lparr>didPerformWorkStackCursor :=
                                push (didPerformWorkStackCursor s5) didChange workInProgress\<rparr>
                  in Inr s6))
          else
            (let s1 = s\<lparr>didPerformWorkStackCursor :=
                          pop (didPerformWorkStackCursor s) workInProgress\<rparr>
             in Inr (s1\<lparr>didPerformWorkStackCursor :=
                          push (didPerformWorkStackCursor s1) didChange workInProgress\<rparr>)))"

text \<open>
  The walk up the \<open>return\<close> pointers. Nothing in the module bounds it, so it is
  a partial function: \<open>None\<close> is a walk that never ends.
\<close>

partial_function (option) walkToProvider :: "state \<Rightarrow> fid \<Rightarrow> (error + ref option) option" where
  "walkToProvider s node =
     (if tag (fibers s node) \<noteq> HostRoot then
        (if isContextProvider (fibers s node) then
           (case stateNode (fibers s node) of
              None \<Rightarrow> Some (Inl TypeError)
            | Some i \<Rightarrow> Some (Inr (reactInternalMemoizedMergedChildContext (instances s i))))
         else
           (case return (fibers s node) of
              None \<Rightarrow> Some (Inl DetachedSubtreeParent)
            | Some parent \<Rightarrow> walkToProvider s parent))
      else
        (case stateNode (fibers s node) of
           None \<Rightarrow> Some (Inl TypeError)
         | Some i \<Rightarrow> Some (Inr (context_obj (instances s i)))))"

declare walkToProvider.simps [code]

text \<open>
  \<open>isFiberMounted\<close> belongs to the reconciler's reflection module and is taken
  as a parameter.
\<close>

definition findCurrentUnmaskedContext ::
  "(state \<Rightarrow> fid \<Rightarrow> bool) \<Rightarrow> fid \<Rightarrow> state \<Rightarrow> (error + ref option) option" where
  "findCurrentUnmaskedContext isFiberMounted f s =
     (if \<not> (isFiberMounted s f \<and> tag (fibers s f) = ClassComponent)
      then Some (Inl ExpectedMountedClassComponent)
      else walkToProvider s f)"

text \<open>The state right after the module is created.\<close>

definition initialState :: "bool \<Rightarrow> (fid \<Rightarrow> fiber) \<Rightarrow> (iid \<Rightarrow> Instance) \<Rightarrow> state" where
  "initialState d fs insts =
     \<lparr>contextStackCursor = createCursor emptyObject,
      didPerformWorkStackCursor = createCursor False,
      previousContext = emptyObject,
      fibers = fs,
      instances = insts,
      objects = (\<lambda>_. []),
      nextRef = Suc emptyObject,
      dev = d,
      warnedAboutMissingGetChildContext = [],
      warnings = [],
      getChildContextCalls = []\<rparr>"

subsection \<open>Sequences of calls\<close>

text \<open>Two calls of \<open>getMaskedContext\<close> in a row, the second on the state the first left.\<close>

definition getMaskedContextTwice ::
  "fid \<Rightarrow> ref \<Rightarrow> state \<Rightarrow> error + (ref option \<times> ref option \<times> state)" where
  "getMaskedContextTwice f u s =
     (case getMaskedContext f u s of
        Inl e \<Rightarrow> Inl e
      | Inr (m1, s1) \<Rightarrow>
          (case getMaskedContext f u s1 of
             Inl e \<Rightarrow> Inl e
           | Inr (m2, s2) \<Rightarrow> Inr (m1, m2, s2)))"

text \<open>\<open>invalidateContextProvider\<close> called \<open>n\<close> times in a row.\<close>

fun invalidateTimes :: "nat \<Rightarrow> fid \<Rightarrow> bool \<Rightarrow> state \<Rightarrow> error + state" where
  "invalidateTimes 0 p d s = Inr s"
| "invalidateTimes (Suc n) p d s =
     (case invalidateContextProvider p d s of
        Inl e \<Rightarrow> Inl e
      | Inr s' \<Rightarrow> invalidateTimes n p d s')"

text \<open>One call of any state-changing operation of the module.\<close>

datatype operation =
  PushContextProvider fid
  | InvalidateContextProvider fid bool
  | PopContextProvider fid
  | PushTopLevelContextObject fid ref bool
  | PopTopLevelContextObject fid
  | GetMaskedContext fid ref
  | CacheContext fid ref ref
  | ProcessChildContext fid ref

fun step :: "operation \<Rightarrow> state \<Rightarrow> error + state" where
  "step (PushContextProvider f) s = Inr (snd (pushContextProvider f s))"
| "step (InvalidateContextProvider f d) s = invalidateContextProvider f d s"
| "step (PopContextProvider f) s = Inr (popContextProvider f s)"
| "step (PushTopLevelContextObject f c d) s = pushTopLevelContextObject f c d s"
| "step (PopTopLevelContextObject f) s = Inr (popTopLevelContextObject f s)"
| "step (GetMaskedContext f u) s = map_sum id snd (getMaskedContext f u s)"
| "step (CacheContext f u m) s = cacheContext f u m s"
| "step (ProcessChildContext f c) s = map_sum id snd (processChildContext f c s)"

text \<open>A sequence of calls; it stops at the first one that throws.\<close>

fun steps :: "operation list \<Rightarrow> state \<Rightarrow> error + state" where
  "steps [] s = Inr s"
| "steps (opn # opns) s =
     (case step opn s of
        Inl e \<Rightarrow> Inl e
      | Inr s' \<Rightarrow> steps opns s')"

text \<open>The calls of \<open>pushContextProvider\<close> that do push: those for a provider.\<close>

fun pushesProvider :: "state \<Rightarrow> operation \<Rightarrow> bool" where
  "pushesProvider s (PushContextProvider q) = isContextProvider (fibers s q)"
| "pushesProvider s (InvalidateContextProvider q d) = False"
| "pushesProvider s (PopContextProvider q) = False"
| "pushesProvider s (PushTopLevelContextObject q c d) = False"
| "pushesProvider s (PopTopLevelContextObject q) = False"
| "pushesProvider s (GetMaskedContext q u) = False"
| "pushesProvider s (CacheContext q u m) = False"
| "pushesProvider s (ProcessChildContext q c) = False"

text \<open>
  The frames of the did-perform-work cursor counted from the bottom: frame
  \<open>i\<close> keeps its index while frames above it come and go.
\<close>

definition flagAt :: "state \<Rightarrow> nat \<Rightarrow> fid \<times> bool" where
  "flagAt s i = rev (frames (didPerformWorkStackCursor s)) ! i"

definition flagDepth :: "state \<Rightarrow> nat" where
  "flagDepth s = length (frames (didPerformWorkStackCursor s))"

text \<open>
  \<open>returnChain s n ms\<close>: following \<open>return\<close> from \<open>n\<close> visits the fibers
  \<open>ms\<close> in this order, and every fiber left behind on the way is neither a
  host root nor a provider.
\<close>

fun returnChain :: "state \<Rightarrow> fid \<Rightarrow> fid list \<Rightarrow> bool" where
  "returnChain s n [] = True"
| "returnChain s n (m # ms) =
     (tag (fibers s n) \<noteq> HostRoot \<and> \<not> isContextProvider (fibers s n) \<and>
      return (fibers s n) = Some m \<and> returnChain s m ms)"

subsection \<open>A small tree used for the concrete checks\<close>

text \<open>
  Fiber 0 is the host root. Fibers 1 and 2 are nested providers of \<open>color\<close>;
  fiber 3 is a consumer below them, under the host component 9. Fiber 4 is a
  consumer that has no instance yet, fiber 5 a provider whose instance has no
  \<open>getChildContext\<close>, fiber 6 a provider that returns a key it did not
  declare, fiber 7 a class component without parent, fiber 8 a class component
  directly below the root, fiber 10 a provider that returns the key
  \<open>toString\<close>, which it did not declare. \<open>exState\<close> is the state after the root context
  (object 1) was pushed.
\<close>

definition plainType :: ftype where
  "plainType = \<lparr>contextTypes = None, childContextTypes = None, componentName = None\<rparr>"

definition exFibers :: "fid \<Rightarrow> fiber" where
  "exFibers =
     (\<lambda>_. \<lparr>tag = OtherWork 0, type = plainType, stateNode = None, return = None\<rparr>)
     (0 := \<lparr>tag = HostRoot, type = plainType, stateNode = Some 0, return = None\<rparr>,
      1 := \<lparr>tag = ClassComponent,
             type = plainType\<lparr>childContextTypes := Some [''color''], componentName := Some ''P1''\<rparr>,
             stateNode = Some 1, return = Some 0\<rparr>,
      2 := \<lparr>tag = ClassComponent,
             type = plainType\<lparr>childContextTypes := Some [''color''], componentName := Some ''P2''\<rparr>,
             stateNode = Some 2, return = Some 1\<rparr>,
      3 := \<lparr>tag = ClassComponent,
             type = plainType\<lparr>contextTypes := Some [''color''], componentName := Some ''C''\<rparr>,
             stateNode = Some 3, return = Some 9\<rparr>,
      4 := \<lparr>tag = ClassComponent,
             type = plainType\<lparr>contextTypes := Some [''color''], componentName := Some ''C''\<rparr>,
             stateNode = None, return = Some 0\<rparr>,
      5 := \<lparr>tag = ClassComponent,
             type = plainType\<lparr>childContextTypes := Some [''color'']\<rparr>,
             stateNode = Some 5, return = Some 0\<rparr>,
      6 := \<lparr>tag = ClassComponent,
             type = plainType\<lparr>childContextTypes := Some [''color''], componentName := Some ''Bad''\<rparr>,
             stateNode = Some 6, return = Some 0\<rparr>,
      7 := \<lparr>tag = ClassComponent, type = plainType, stateNode = Some 7, return = None\<rparr>,
      8 := \<lparr>tag = ClassComponent, type = plainType, stateNode = Some 8, return = Some 0\<rparr>,
      9 := \<lparr>tag = OtherWork 5, type = plainType, stateNode = None, return = Some 2\<rparr>,
      10 := \<lparr>tag = ClassComponent,
              type = plainType\<lparr>childContextTypes := Some [''color''], componentName := Some ''Inh''\<rparr>,
              stateNode = Some 10, return = Some 0\<rparr>)"

definition plainInstance :: Instance where
  "plainInstance =
     \<lparr>reactInternalMemoizedUnmaskedChildContext = None,
      reactInternalMemoizedMaskedChildContext = None,
      reactInternalMemoizedMergedChildContext = None,
      getChildContext = None,
      context_obj = None\<rparr>"

definition exInstances :: "iid \<Rightarrow> Instance" where
  "exInstances =
     (\<lambda>_. plainInstance)
     (0 := plainInstance\<lparr>context_obj := Some 1\<rparr>,
      1 := plainInstance\<lparr>reactInternalMemoizedMergedChildContext := Some 2,
                         getChildContext := Some [(''color'', VStr ''purple'')]\<rparr>,
      2 := plainInstance\<lparr>reactInternalMemoizedMergedChildContext := Some 3,
                         getChildContext := Some [(''color'', VStr ''red'')]\<rparr>,
      6 := plainInstance\<lparr>getChildContext := Some [(''color'', VStr ''red''), (''size'', VNum 3)]\<rparr>,
      10 := plainInstance\<lparr>getChildContext := Some [(''toString'', VStr ''x'')]\<rparr>)"

definition exState :: state where
  "exState =
     \<lparr>contextStackCursor = push (createCursor emptyObject) 1 0,
      didPerformWorkStackCursor = push (createCursor False) False 0,
      previousContext = emptyObject,
      fibers = exFibers,
      instances = exInstances,
      objects = (\<lambda>_. [])
                (1 := [(''color'', Undefined), (''lang'', VStr ''en'')],
                 2 := [(''color'', VStr ''purple''), (''lang'', VStr ''en'')],
                 3 := [(''color'', VStr ''red''), (''lang'', VStr ''en'')]),
      nextRef = 4,
      dev = True,
      warnedAboutMissingGetChildContext = [],
      warnings = [],
      getChildContextCalls = []\<rparr>"

definition exPushed :: state where
  "exPushed = snd (pushContextProvider 1 exState)"

definition exInvalidated :: state where
  "exInvalidated = projr (invalidateContextProvider 1 True exPushed)"

text \<open>Calls made while provider 1 is entered; none of them pushes a provider.\<close>

definition exWindow :: "operation list" where
  "exWindow = [InvalidateContextProvider 1 True, PushContextProvider 3,
               GetMaskedContext 3 1, InvalidateContextProvider 1 False]"

definition exRootPushed :: state where
  "exRootPushed =
     projr (pushTopLevelContextObject 0 1 False (initialState True exFibers exInstances))"

section \<open>Properties\<close>

subsection \<open>Auxiliary facts\<close>

lemmas ex_defs = exState_def exFibers_def exInstances_def plainType_def plainInstance_def

lemma pop_push: "pop (push c v f) g = c"
  by (simp add: pop_def push_def)

lemma current_push: "current (push c v f) = v"
  by (simp add: current_def push_def)

lemma frames_pop: "frames (pop c f) = tl (frames c)"
  by (cases "frames c") (simp_all add: pop_def)

lemma frames_push: "frames (push c v f) = (f, v) # frames c"
  by (simp add: push_def)

lemma checkChildContextKeys_accepted:
  "childContextTypes (type fb) = Some declared \<Longrightarrow> list_all (\<lambda>k. obj_in k declared) ks \<Longrightarrow>
   checkChildContextKeys fb ks = None"
  by (induction ks) auto

lemma checkChildContextKeys_declared:
  assumes "childContextTypes (type fb) = Some declared" and "set ks \<subseteq> set declared"
  shows "checkChildContextKeys fb ks = None"
proof -
  from assms(2) have "list_all (\<lambda>k. obj_in k declared) ks"
    by (auto simp: list_all_iff obj_in_def)
  with assms(1) show ?thesis by (rule checkChildContextKeys_accepted)
qed


lemma map_of_obj_set: "map_of (obj_set k v ob) = (map_of ob)(k \<mapsto> v)"
  by (induction ob) (auto simp: fun_eq_iff)

lemma keys_obj_set:
  "map fst (obj_set k v ob) = (if k \<in> set (map fst ob) then map fst ob else map fst ob @ [k])"
  by (induction ob) auto

lemma obj_assign_Cons:
  "obj_assign target (p # ps) = obj_assign (obj_set (fst p) (snd p) target) ps"
  by (simp add: obj_assign_def)

lemma map_of_obj_assign:
  "distinct (map fst src) \<Longrightarrow> map_of (obj_assign target src) = map_of target ++ map_of src"
proof (induction src arbitrary: target)
  case Nil
  then show ?case by (simp add: obj_assign_def)
next
  case (Cons p ps)
  from Cons.prems have "fst p \<notin> dom (map_of ps)"
    by (simp add: dom_map_of_conv_image_fst)
  then have none: "map_of ps (fst p) = None" by blast
  have "map_of (obj_assign target (p # ps))
          = (map_of target)(fst p \<mapsto> snd p) ++ map_of ps"
    using Cons by (simp add: obj_assign_Cons map_of_obj_set)
  also have "\<dots> = map_of target ++ map_of (p # ps)"
    using none by (cases p) (auto simp: fun_eq_iff map_add_def split: option.splits)
  finally show ?case .
qed

lemma keys_obj_assign:
  "set (map fst (obj_assign target src)) = set (map fst target) \<union> set (map fst src)"
proof (induction src arbitrary: target)
  case Nil
  then show ?case by (simp add: obj_assign_def)
next
  case (Cons p ps)
  have "set (map fst (obj_set (fst p) (snd p) target)) = insert (fst p) (set (map fst target))"
    by (auto simp: keys_obj_set)
  with Cons[of "obj_set (fst p) (snd p) target"] show ?case
    by (simp only: obj_assign_Cons) auto
qed

lemma map_of_spread2:
  assumes "distinct (obj_keys a)" "distinct (obj_keys b)"
  shows "map_of (spread2 a b) = map_of a ++ map_of b"
  using assms by (simp add: spread2_def obj_keys_def map_of_obj_assign)

lemma obj_get_spread2:
  assumes "distinct (obj_keys a)" "distinct (obj_keys b)"
  shows "obj_get (spread2 a b) k = (if k \<in> set (obj_keys b) then obj_get b k else obj_get a k)"
proof -
  have "k \<in> set (obj_keys b) \<longleftrightarrow> map_of b k \<noteq> None"
    by (simp add: obj_keys_def map_of_eq_None_iff)
  then show ?thesis
    by (auto simp: obj_get_def map_of_spread2[OF assms] map_add_def split: option.splits)
qed

lemma keys_spread2: "set (obj_keys (spread2 a b)) = set (obj_keys a) \<union> set (obj_keys b)"
  unfolding spread2_def obj_keys_def keys_obj_assign by simp


lemma warnMissing_frame:
  "contextStackCursor (warnMissingGetChildContext fb s) = contextStackCursor s \<and>
   didPerformWorkStackCursor (warnMissingGetChildContext fb s) = didPerformWorkStackCursor s \<and>
   previousContext (warnMissingGetChildContext fb s) = previousContext s \<and>
   fibers (warnMissingGetChildContext fb s) = fibers s \<and>
   instances (warnMissingGetChildContext fb s) = instances s \<and>
   objects (warnMissingGetChildContext fb s) = objects s \<and>
   nextRef (warnMissingGetChildContext fb s) = nextRef s \<and>
   getChildContextCalls (warnMissingGetChildContext fb s) = getChildContextCalls s"
  by (simp add: warnMissingGetChildContext_def Let_def)

lemma processChildContext_frame:
  assumes "processChildContext f pc s = Inr (r, s1)"
  shows "contextStackCursor s1 = contextStackCursor s \<and>
     didPerformWorkStackCursor s1 = didPerformWorkStackCursor s \<and>
     previousContext s1 = previousContext s \<and> fibers s1 = fibers s"
  using assms
  by (auto simp: processChildContext_def Let_def alloc_def warnMissing_frame
           split: option.splits)

text \<open>When the contribution stays inside the declared shape, the merge goes through.\<close>

lemma processChildContext_succeeds:
  assumes "stateNode (fibers s f) = Some i"
      and "getChildContext (instances s i) = Some c"
      and "childContextTypes (type (fibers s f)) = Some declared"
      and "set (obj_keys c) \<subseteq> set declared"
  shows "processChildContext f pc s =
           Inr (alloc (spread2 (objects s pc) c) (s\<lparr>getChildContextCalls := i # getChildContextCalls s\<rparr>))"
proof -
  from assms(3,4) have "checkChildContextKeys (fibers s f) (obj_keys c) = None"
    by (rule checkChildContextKeys_declared)
  with assms(1,2) show ?thesis
    by (simp add: processChildContext_def Let_def)
qed

lemma invalidate_true_succeeds:
  assumes "stateNode (fibers s f) = Some i"
      and "getChildContext (instances s i) = Some c"
      and "childContextTypes (type (fibers s f)) = Some declared"
      and "set (obj_keys c) \<subseteq> set declared"
  shows "\<exists>s'. invalidateContextProvider f True s = Inr s'"
  using assms(1) processChildContext_succeeds[OF assms, of "previousContext s"]
  by (simp add: invalidateContextProvider_def Let_def alloc_def)

lemma exPushed_fields:
  "fibers exPushed = exFibers" "instances exPushed = exInstances"
  "frames (contextStackCursor exPushed) = [(1, 2), (0, 1)]"
  "frames (didPerformWorkStackCursor exPushed) = [(1, False), (0, False)]"
  by (simp_all add: exPushed_def pushContextProvider_def isContextProvider_def Let_def
        ex_defs push_def createCursor_def current_def)

lemma exInvalidated_eq: "invalidateContextProvider 1 True exPushed = Inr exInvalidated"
proof -
  have "\<exists>s'. invalidateContextProvider 1 True exPushed = Inr s'"
    by (rule invalidate_true_succeeds[where i = 1 and c = "[(''color'', VStr ''purple'')]"
              and declared = "[''color'']"])
       (simp_all add: exPushed_fields exFibers_def exInstances_def plainType_def
          plainInstance_def obj_keys_def)
  then show ?thesis by (auto simp: exInvalidated_def)
qed

subsection \<open>The provider protocol\<close>

text \<open>
  C1. For a provider \<open>p\<close> and any state of the two cursors, running
  \<open>pushContextProvider p\<close>, then \<open>invalidateContextProvider p true\<close>, then
  \<open>popContextProvider p\<close> leaves the context cursor and the did-perform-work
  cursor exactly as they were before the push: same frames, same owners, same
  current value.
\<close>

theorem push_invalidate_pop_roundtrip:
  assumes "isContextProvider (fibers s p)"
      and "pushContextProvider p s = (b, s1)"
      and "invalidateContextProvider p True s1 = Inr s2"
  shows "contextStackCursor (popContextProvider p s2) = contextStackCursor s \<and>
         didPerformWorkStackCursor (popContextProvider p s2) = didPerformWorkStackCursor s"
proof -
  from assms(1,2) have f1: "fibers s1 = fibers s"
    and c1: "\<exists>m. contextStackCursor s1 = push (contextStackCursor s) m p"
    and d1: "\<exists>v. didPerformWorkStackCursor s1 = push (didPerformWorkStackCursor s) v p"
    by (auto simp: pushContextProvider_def Let_def)
  from assms(3) obtain m sp where
    pc: "processChildContext p (previousContext s1) s1 = Inr (m, sp)" and
    s2: "fibers s2 = fibers sp"
        "didPerformWorkStackCursor s2 = push (pop (didPerformWorkStackCursor sp) p) True p"
        "contextStackCursor s2 = push (pop (contextStackCursor sp) p) m p"
    by (auto simp: invalidateContextProvider_def Let_def split: option.splits sum.splits)
  from processChildContext_frame[OF pc] f1 c1 d1 s2 assms(1)
  show ?thesis
    by (auto simp: popContextProvider_def Let_def pop_push)
qed

theorem push_invalidate_pop_roundtrip_witness:
  "isContextProvider (fibers exState 1) \<and>
   pushContextProvider 1 exState = (True, exPushed) \<and>
   invalidateContextProvider 1 True exPushed = Inr exInvalidated \<and>
   contextStackCursor (popContextProvider 1 exInvalidated) = contextStackCursor exState \<and>
   didPerformWorkStackCursor (popContextProvider 1 exInvalidated) = didPerformWorkStackCursor exState"
proof -
  have h1: "isContextProvider (fibers exState 1)"
    by (simp add: ex_defs isContextProvider_def)
  have h2: "pushContextProvider 1 exState = (True, exPushed)"
    using h1 by (simp add: exPushed_def pushContextProvider_def Let_def)
  show ?thesis
    using h1 h2 exInvalidated_eq push_invalidate_pop_roundtrip[OF h1 h2 exInvalidated_eq]
    by simp
qed

lemma getMaskedContext_keeps:
  "getMaskedContext f u s = Inr (m, s') \<Longrightarrow>
   fibers s' = fibers s \<and> previousContext s' = previousContext s"
  by (auto simp: getMaskedContext_def createMaskedContext_def cacheContext_def alloc_def
           split: option.splits if_splits sum.splits prod.splits)

lemma invalidateContextProvider_keeps:
  "invalidateContextProvider f d s = Inr s' \<Longrightarrow>
   fibers s' = fibers s \<and> previousContext s' = previousContext s"
  by (cases d)
     (auto simp: invalidateContextProvider_def Let_def
           dest!: processChildContext_frame split: option.splits sum.splits)

lemma pushContextProvider_fibers: "fibers (snd (pushContextProvider f s)) = fibers s"
  by (simp add: pushContextProvider_def Let_def)

lemma step_keeps:
  assumes "step opn s = Inr s'"
  shows "fibers s' = fibers s \<and>
         (\<not> pushesProvider s opn \<longrightarrow> previousContext s' = previousContext s)"
proof (cases opn)
  case (PushContextProvider f)
  with assms have s': "s' = snd (pushContextProvider f s)" by simp
  have "\<not> isContextProvider (fibers s f) \<longrightarrow> snd (pushContextProvider f s) = s"
    by (simp add: pushContextProvider_def)
  with s' PushContextProvider show ?thesis
    by (auto simp: pushContextProvider_fibers)
next
  case (InvalidateContextProvider f d)
  with assms show ?thesis by (auto dest: invalidateContextProvider_keeps)
next
  case (PopContextProvider f)
  with assms have "s' = popContextProvider f s" by simp
  then show ?thesis by (simp add: popContextProvider_def Let_def)
next
  case (PushTopLevelContextObject f c d)
  with assms show ?thesis
    by (auto simp: pushTopLevelContextObject_def Let_def split: if_splits)
next
  case (PopTopLevelContextObject f)
  with assms have "s' = popTopLevelContextObject f s" by simp
  then show ?thesis by (simp add: popTopLevelContextObject_def Let_def)
next
  case (GetMaskedContext f u)
  with assms show ?thesis
    by (cases "getMaskedContext f u s") (auto dest: getMaskedContext_keeps)
next
  case (CacheContext f u m)
  with assms show ?thesis
    by (auto simp: cacheContext_def split: option.splits)
next
  case (ProcessChildContext f c)
  with assms show ?thesis
    by (cases "processChildContext f c s") (auto dest: processChildContext_frame)
qed

lemma pushesProvider_fibers: "fibers s' = fibers s \<Longrightarrow> pushesProvider s' opn = pushesProvider s opn"
  by (cases opn) simp_all

lemma steps_keep:
  "steps opns s = Inr s' \<Longrightarrow> list_all (\<lambda>opn. \<not> pushesProvider s opn) opns \<Longrightarrow>
   fibers s' = fibers s \<and> previousContext s' = previousContext s"
proof (induction opns arbitrary: s)
  case Nil
  then show ?case by simp
next
  case (Cons opn opns)
  from Cons.prems(1) obtain t where t: "step opn s = Inr t" "steps opns t = Inr s'"
    by (auto split: sum.splits)
  from step_keeps[OF t(1)] Cons.prems(2)
  have k: "fibers t = fibers s" "previousContext t = previousContext s" by simp_all
  from Cons.prems(2) k(1) have "list_all (\<lambda>opn. \<not> pushesProvider t opn) opns"
    by (simp add: pushesProvider_fibers[of t s])
  from Cons.IH[OF t(2) this] k show ?case by simp
qed

lemma exInvalidated_fields:
  "fibers exInvalidated = exFibers" "previousContext exInvalidated = 1"
proof -
  have "previousContext exPushed = 1"
    by (simp add: exPushed_def pushContextProvider_def isContextProvider_def Let_def
          ex_defs push_def createCursor_def current_def)
  with invalidateContextProvider_keeps[OF exInvalidated_eq] exPushed_fields(1)
  show "fibers exInvalidated = exFibers" "previousContext exInvalidated = 1" by simp_all
qed

lemma exWindow_runs: "\<exists>s2. steps exWindow exPushed = Inr s2"
proof -
  have 1: "step (InvalidateContextProvider 1 True) exPushed = Inr exInvalidated"
    by (simp only: step.simps exInvalidated_eq)
  have 2: "step (PushContextProvider 3) exInvalidated = Inr exInvalidated"
    by (simp add: pushContextProvider_def isContextProvider_def exInvalidated_fields exFibers_def
          plainType_def)
  obtain m t where 3: "getMaskedContext 3 1 exInvalidated = Inr (m, t)"
    by (cases "getMaskedContext 3 1 exInvalidated")
       (auto simp: getMaskedContext_def createMaskedContext_def cacheContext_def alloc_def
          exInvalidated_fields exFibers_def plainType_def split: option.splits if_splits)
  from getMaskedContext_keeps[OF 3] have "stateNode (fibers t 1) = Some 1"
    by (simp add: exInvalidated_fields exFibers_def)
  then have 4: "\<exists>s2. invalidateContextProvider 1 False t = Inr s2"
    by (simp add: invalidateContextProvider_def Let_def)
  from 1 2 3 4 show ?thesis by (auto simp: exWindow_def)
qed

text \<open>
  C2. After \<open>pushContextProvider p\<close> has returned true, and whatever calls of
  the module follow, as long as none of them is a \<open>pushContextProvider\<close> that
  pushes a provider, \<open>getUnmaskedContext p\<close> returns the object that was the
  current value of the context cursor right before the push: the provider
  does not read what it has pushed, nor what \<open>invalidateContextProvider\<close>
  puts in its place.
\<close>

theorem getUnmaskedContext_after_push:
  assumes "pushContextProvider p s = (True, s1)"
      and "steps opns s1 = Inr s2"
      and "list_all (\<lambda>opn. \<not> pushesProvider s opn) opns"
  shows "getUnmaskedContext p s2 = current (contextStackCursor s)"
proof -
  from assms(1) have p: "isContextProvider (fibers s p)"
    and f1: "fibers s1 = fibers s"
    and c1: "previousContext s1 = current (contextStackCursor s)"
    by (auto simp: pushContextProvider_def Let_def split: if_splits)
  from assms(3) f1 have "list_all (\<lambda>opn. \<not> pushesProvider s1 opn) opns"
    by (simp add: pushesProvider_fibers[of s1 s])
  from steps_keep[OF assms(2) this] f1 c1 p show ?thesis
    by (simp add: getUnmaskedContext_def)
qed

theorem getUnmaskedContext_after_push_witness:
  "pushContextProvider 1 exState = (True, exPushed) \<and>
   \<not> isl (steps exWindow exPushed) \<and>
   list_all (\<lambda>opn. \<not> pushesProvider exState opn) exWindow \<and>
   current (contextStackCursor exState) = 1 \<and>
   getUnmaskedContext 1 (projr (steps exWindow exPushed)) = 1"
proof -
  have h: "pushContextProvider 1 exState = (True, exPushed)"
    by (simp add: exPushed_def pushContextProvider_def Let_def ex_defs isContextProvider_def)
  have w: "list_all (\<lambda>opn. \<not> pushesProvider exState opn) exWindow"
    by (simp add: exWindow_def ex_defs isContextProvider_def)
  have c: "current (contextStackCursor exState) = 1"
    by (simp add: exState_def current_def push_def createCursor_def)
  from exWindow_runs obtain s2 where r: "steps exWindow exPushed = Inr s2" by blast
  from getUnmaskedContext_after_push[OF h r w] c r show ?thesis
    using h w by simp
qed

subsection \<open>Masked context\<close>

lemma getMaskedContext_no_contextTypes:
  "contextTypes (type (fibers s f)) = None \<Longrightarrow> getMaskedContext f u s = Inr (Some emptyObject, s)"
  by (simp add: getMaskedContext_def)

lemma getMaskedContext_hit:
  assumes "contextTypes (type (fibers s f)) = Some keys"
      and "stateNode (fibers s f) = Some i"
      and "reactInternalMemoizedUnmaskedChildContext (instances s i) = Some u"
  shows "getMaskedContext f u s = Inr (reactInternalMemoizedMaskedChildContext (instances s i), s)"
  using assms by (simp add: getMaskedContext_def)

lemma getMaskedContext_miss:
  assumes "contextTypes (type (fibers s f)) = Some keys"
      and "stateNode (fibers s f) = Some i"
      and "reactInternalMemoizedUnmaskedChildContext (instances s i) \<noteq> Some u"
  shows "\<exists>s1. getMaskedContext f u s = Inr (Some (nextRef s), s1) \<and>
           fibers s1 = fibers s \<and>
           reactInternalMemoizedUnmaskedChildContext (instances s1 i) = Some u \<and>
           reactInternalMemoizedMaskedChildContext (instances s1 i) = Some (nextRef s)"
  using assms
  by (simp add: getMaskedContext_def createMaskedContext_def alloc_def cacheContext_def)

lemma getMaskedContext_no_instance:
  assumes "contextTypes (type (fibers s f)) = Some keys"
      and "stateNode (fibers s f) = None"
  shows "getMaskedContext f u s =
           Inr (Some (nextRef s),
                s\<lparr>objects := (objects s)(nextRef s := maskContext keys (objects s u)),
                  nextRef := Suc (nextRef s)\<rparr>)"
  using assms by (simp add: getMaskedContext_def createMaskedContext_def alloc_def)

text \<open>
  C3 (as amended). For a node that declares no \<open>contextTypes\<close>, or whose
  \<open>stateNode\<close> is not null, two calls of \<open>getMaskedContext\<close> in a row with
  the same unmasked object return the same masked object. As stated for every
  node the claim fails: a node with \<open>contextTypes\<close> and no instance gets a
  new object on each call, since there is no instance to hold the cache.
\<close>

theorem getMaskedContext_memoized:
  assumes "contextTypes (type (fibers s n)) = None \<or> stateNode (fibers s n) \<noteq> None"
  shows "\<exists>m s2. getMaskedContextTwice n E s = Inr (m, m, s2)"
proof (cases "contextTypes (type (fibers s n))")
  case None
  then show ?thesis
    by (simp add: getMaskedContextTwice_def getMaskedContext_no_contextTypes)
next
  case (Some keys)
  with assms obtain i where i: "stateNode (fibers s n) = Some i" by auto
  show ?thesis
  proof (cases "reactInternalMemoizedUnmaskedChildContext (instances s i) = Some E")
    case True
    then show ?thesis
      by (simp add: getMaskedContextTwice_def getMaskedContext_hit[OF Some i])
  next
    case False
    from getMaskedContext_miss[OF Some i False] obtain s1 where
      s1: "getMaskedContext n E s = Inr (Some (nextRef s), s1)" "fibers s1 = fibers s"
          "reactInternalMemoizedUnmaskedChildContext (instances s1 i) = Some E"
          "reactInternalMemoizedMaskedChildContext (instances s1 i) = Some (nextRef s)"
      by blast
    have "getMaskedContext n E s1 = Inr (Some (nextRef s), s1)"
      using getMaskedContext_hit[of s1 n keys i E] Some i s1 by simp
    with s1(1) show ?thesis by (simp add: getMaskedContextTwice_def)
  qed
qed

theorem getMaskedContext_memoized_witness:
  "stateNode (fibers exState 3) = Some 3 \<and>
   contextTypes (type (fibers exState 3)) = Some [''color''] \<and>
   \<not> isl (getMaskedContextTwice 3 3 exState) \<and>
   fst (projr (getMaskedContextTwice 3 3 exState))
     = fst (snd (projr (getMaskedContextTwice 3 3 exState)))"
proof -
  have h: "stateNode (fibers exState 3) = Some 3"
          "contextTypes (type (fibers exState 3)) = Some [''color'']"
    by (simp_all add: ex_defs)
  from h(1) have "contextTypes (type (fibers exState 3)) = None \<or> stateNode (fibers exState 3) \<noteq> None"
    by simp
  from getMaskedContext_memoized[OF this, of 3] obtain m s2
    where "getMaskedContextTwice 3 3 exState = Inr (m, m, s2)" by blast
  with h show ?thesis by simp
qed

theorem getMaskedContext_twice_without_instance:
  "map_sum id (\<lambda>r. (fst r, fst (snd r))) (getMaskedContextTwice 4 1 exState) = Inr (Some 4, Some 5)"
  by (simp add: getMaskedContextTwice_def getMaskedContext_no_instance[where keys = "[''color'']"]
        ex_defs)

text \<open>
  C10. For a node with \<open>contextTypes\<close> whose \<open>stateNode\<close> is null,
  \<open>getMaskedContext\<close> allocates a new masked object on every call and writes
  to no instance: two calls in a row with the same unmasked object return two
  different objects, and the instances are as before.
\<close>

theorem getMaskedContext_fresh_without_instance:
  assumes "contextTypes (type (fibers s n)) = Some keys"
      and "stateNode (fibers s n) = None"
  shows "\<exists>s2. getMaskedContextTwice n E s = Inr (Some (nextRef s), Some (Suc (nextRef s)), s2) \<and>
           nextRef s \<noteq> Suc (nextRef s) \<and>
           objects s2 (nextRef s) = maskContext keys (objects s E) \<and>
           instances s2 = instances s"
proof -
  let ?s1 = "s\<lparr>objects := (objects s)(nextRef s := maskContext keys (objects s E)),
                 nextRef := Suc (nextRef s)\<rparr>"
  have 1: "getMaskedContext n E s = Inr (Some (nextRef s), ?s1)"
    by (rule getMaskedContext_no_instance[OF assms])
  have 2: "getMaskedContext n E ?s1 =
             Inr (Some (nextRef ?s1),
                  ?s1\<lparr>objects := (objects ?s1)(nextRef ?s1 := maskContext keys (objects ?s1 E)),
                       nextRef := Suc (nextRef ?s1)\<rparr>)"
    by (rule getMaskedContext_no_instance) (simp_all add: assms)
  show ?thesis
    by (simp add: getMaskedContextTwice_def 1 2)
qed

theorem getMaskedContext_fresh_without_instance_witness:
  "contextTypes (type (fibers exState 4)) = Some [''color''] \<and>
   stateNode (fibers exState 4) = None \<and>
   fst (projr (getMaskedContextTwice 4 1 exState)) = Some 4 \<and>
   fst (snd (projr (getMaskedContextTwice 4 1 exState))) = Some 5 \<and>
   objects (snd (snd (projr (getMaskedContextTwice 4 1 exState)))) 4 = [(''color'', Undefined)] \<and>
   instances (snd (snd (projr (getMaskedContextTwice 4 1 exState)))) = exInstances"
proof -
  have h: "contextTypes (type (fibers exState 4)) = Some [''color'']"
          "stateNode (fibers exState 4) = None"
    by (simp_all add: ex_defs)
  have n: "nextRef exState = 4" "instances exState = exInstances"
          "maskContext [''color''] (objects exState 1) = [(''color'', Undefined)]"
    by (simp_all add: exState_def maskContext_def obj_read_def obj_put_def obj_keys_def)
  from getMaskedContext_fresh_without_instance[OF h, of 1] n h
  show ?thesis by auto
qed

subsection \<open>Merging the child context\<close>

text \<open>
  C4. For a provider with an instance: when \<open>getChildContext\<close> is callable
  and returns only declared keys, \<open>processChildContext\<close> returns a new object
  that is the shallow merge of the parent context with the returned object,
  the returned keys winning; when \<open>getChildContext\<close> is not callable, it
  returns the parent context itself and does not fail.
\<close>

theorem processChildContext_merges:
  assumes "stateNode (fibers s f) = Some i"
  shows "(getChildContext (instances s i) = None \<longrightarrow>
            (\<exists>s'. processChildContext f pc s = Inr (pc, s') \<and>
                  objects s' = objects s \<and> nextRef s' = nextRef s \<and>
                  getChildContextCalls s' = getChildContextCalls s))
       \<and> (getChildContext (instances s i) = Some c \<and>
          childContextTypes (type (fibers s f)) = Some declared \<and>
          set (obj_keys c) \<subseteq> set declared \<and>
          distinct (obj_keys c) \<and> distinct (obj_keys (objects s pc)) \<longrightarrow>
            (\<exists>s'. processChildContext f pc s = Inr (nextRef s, s') \<and>
                  objects s' = (objects s)(nextRef s := spread2 (objects s pc) c) \<and>
                  set (obj_keys (spread2 (objects s pc) c))
                    = set (obj_keys (objects s pc)) \<union> set (obj_keys c) \<and>
                  (\<forall>k. obj_get (spread2 (objects s pc) c) k
                         = (if k \<in> set (obj_keys c) then obj_get c k
                            else obj_get (objects s pc) k))))"
proof (intro conjI impI)
  assume "getChildContext (instances s i) = None"
  with assms show "\<exists>s'. processChildContext f pc s = Inr (pc, s') \<and>
      objects s' = objects s \<and> nextRef s' = nextRef s \<and>
      getChildContextCalls s' = getChildContextCalls s"
    by (simp add: processChildContext_def Let_def warnMissing_frame)
next
  assume a: "getChildContext (instances s i) = Some c \<and>
          childContextTypes (type (fibers s f)) = Some declared \<and>
          set (obj_keys c) \<subseteq> set declared \<and>
          distinct (obj_keys c) \<and> distinct (obj_keys (objects s pc))"
  then have "processChildContext f pc s =
      Inr (alloc (spread2 (objects s pc) c) (s\<lparr>getChildContextCalls := i # getChildContextCalls s\<rparr>))"
    using processChildContext_succeeds[OF assms, of c declared pc] by simp
  moreover from a have "\<forall>k. obj_get (spread2 (objects s pc) c) k
         = (if k \<in> set (obj_keys c) then obj_get c k else obj_get (objects s pc) k)"
    by (simp add: obj_get_spread2)
  ultimately show "\<exists>s'. processChildContext f pc s = Inr (nextRef s, s') \<and>
      objects s' = (objects s)(nextRef s := spread2 (objects s pc) c) \<and>
      set (obj_keys (spread2 (objects s pc) c))
        = set (obj_keys (objects s pc)) \<union> set (obj_keys c) \<and>
      (\<forall>k. obj_get (spread2 (objects s pc) c) k
             = (if k \<in> set (obj_keys c) then obj_get c k else obj_get (objects s pc) k))"
    by (simp add: alloc_def keys_spread2)
qed

theorem processChildContext_merges_witness:
  "stateNode (fibers exState 5) = Some 5 \<and>
   getChildContext (instances exState 5) = None \<and>
   map_sum id fst (processChildContext 5 1 exState) = Inr 1 \<and>
   stateNode (fibers exState 1) = Some 1 \<and>
   getChildContext (instances exState 1) = Some [(''color'', VStr ''purple'')] \<and>
   childContextTypes (type (fibers exState 1)) = Some [''color''] \<and>
   map_sum id fst (processChildContext 1 1 exState) = Inr 4 \<and>
   obj_get (spread2 (objects exState 1) [(''color'', VStr ''purple'')]) ''color'' = VStr ''purple'' \<and>
   obj_get (spread2 (objects exState 1) [(''color'', VStr ''purple'')]) ''lang'' = VStr ''en''"
proof -
  have a: "stateNode (fibers exState 5) = Some 5" "getChildContext (instances exState 5) = None"
    by (simp_all add: ex_defs)
  have b: "stateNode (fibers exState 1) = Some 1"
          "getChildContext (instances exState 1) = Some [(''color'', VStr ''purple'')]"
          "childContextTypes (type (fibers exState 1)) = Some [''color'']"
    by (simp_all add: ex_defs)
  have c: "set (obj_keys [(''color'', VStr ''purple'')]) \<subseteq> set [''color'']"
          "distinct (obj_keys [(''color'', VStr ''purple'')])"
          "distinct (obj_keys (objects exState 1))"
          "nextRef exState = 4"
          "obj_get (objects exState 1) ''lang'' = VStr ''en''"
    by (simp_all add: obj_keys_def obj_get_def exState_def)
  from processChildContext_merges[OF a(1), where pc = 1] a(2)
  have 1: "map_sum id fst (processChildContext 5 1 exState) = Inr 1" by auto
  from processChildContext_merges[OF b(1), where c = "[(''color'', VStr ''purple'')]"
          and declared = "[''color'']" and pc = 1] b c
  obtain s' where 2: "processChildContext 1 1 exState = Inr (4, s')"
    and 3: "\<forall>k. obj_get (spread2 (objects exState 1) [(''color'', VStr ''purple'')]) k
               = (if k \<in> set (obj_keys [(''color'', VStr ''purple'')])
                  then obj_get [(''color'', VStr ''purple'')] k
                  else obj_get (objects exState 1) k)"
    by auto
  from 3 c(5) have
    "obj_get (spread2 (objects exState 1) [(''color'', VStr ''purple'')]) ''color'' = VStr ''purple''"
    "obj_get (spread2 (objects exState 1) [(''color'', VStr ''purple'')]) ''lang'' = VStr ''en''"
    by (simp_all add: obj_keys_def obj_get_def)
  with a b 1 2 show ?thesis by simp
qed




subsection \<open>Invalidation and the did-perform-work flag\<close>

lemma invalidate_false_eq:
  assumes "stateNode (fibers s p) = Some i"
  shows "invalidateContextProvider p False s =
           Inr (s\<lparr>didPerformWorkStackCursor := push (pop (didPerformWorkStackCursor s) p) False p\<rparr>)"
  using assms by (simp add: invalidateContextProvider_def Let_def)

lemma invalidateTimes_false:
  assumes "stateNode (fibers s p) = Some i"
  shows "\<exists>sn. invalidateTimes n p False s = Inr sn \<and>
           fibers sn = fibers s \<and>
           contextStackCursor sn = contextStackCursor s \<and>
           previousContext sn = previousContext s \<and>
           instances sn = instances s \<and> objects sn = objects s \<and>
           getChildContextCalls sn = getChildContextCalls s \<and>
           (0 < n \<longrightarrow> hasContextChanged sn = False)"
  using assms
proof (induction n arbitrary: s)
  case 0
  then show ?case by simp
next
  case (Suc n)
  let ?s1 = "s\<lparr>didPerformWorkStackCursor := push (pop (didPerformWorkStackCursor s) p) False p\<rparr>"
  have e: "invalidateContextProvider p False s = Inr ?s1"
    by (rule invalidate_false_eq[OF Suc.prems])
  have "stateNode (fibers ?s1 p) = Some i" using Suc.prems by simp
  from Suc.IH[OF this] obtain sn where
    sn: "invalidateTimes n p False ?s1 = Inr sn" "fibers sn = fibers ?s1"
        "contextStackCursor sn = contextStackCursor ?s1"
        "previousContext sn = previousContext ?s1"
        "instances sn = instances ?s1" "objects sn = objects ?s1"
        "getChildContextCalls sn = getChildContextCalls ?s1"
        "0 < n \<longrightarrow> hasContextChanged sn = False"
    by blast
  have "hasContextChanged sn = False"
  proof (cases n)
    case 0
    with sn(1) have "sn = ?s1" by simp
    then show ?thesis by (simp add: hasContextChanged_def current_push)
  next
    case (Suc m)
    with sn(8) show ?thesis by simp
  qed
  with sn e show ?case by simp
qed

text \<open>
  C5. For a fiber with an instance, \<open>invalidateContextProvider p false\<close> pops
  the did-perform-work cursor and pushes false on it, and changes nothing
  else: the context cursor, the instances (and so the stored merged context)
  and the record of \<open>getChildContext\<close> calls are as before. The same holds
  after any number of repetitions.
\<close>

theorem invalidate_false_only_flag:
  assumes "stateNode (fibers s p) = Some i"
  shows "invalidateContextProvider p False s =
           Inr (s\<lparr>didPerformWorkStackCursor := push (pop (didPerformWorkStackCursor s) p) False p\<rparr>)
       \<and> (\<exists>sn. invalidateTimes (Suc n) p False s = Inr sn \<and>
             contextStackCursor sn = contextStackCursor s \<and>
             instances sn = instances s \<and> objects sn = objects s \<and>
             getChildContextCalls sn = getChildContextCalls s \<and>
             hasContextChanged sn = False)"
  using invalidate_false_eq[OF assms] invalidateTimes_false[OF assms, of "Suc n"]
  by auto

theorem invalidate_false_only_flag_witness:
  "stateNode (fibers exPushed 1) = Some 1 \<and>
   invalidateContextProvider 1 False exPushed =
     Inr (exPushed\<lparr>didPerformWorkStackCursor :=
            push (pop (didPerformWorkStackCursor exPushed) 1) False 1\<rparr>) \<and>
   \<not> isl (invalidateTimes 3 1 False exPushed) \<and>
   contextStackCursor (projr (invalidateTimes 3 1 False exPushed)) = contextStackCursor exPushed \<and>
   instances (projr (invalidateTimes 3 1 False exPushed)) = instances exPushed \<and>
   getChildContextCalls (projr (invalidateTimes 3 1 False exPushed)) = getChildContextCalls exPushed \<and>
   \<not> hasContextChanged (projr (invalidateTimes 3 1 False exPushed))"
proof -
  have h: "stateNode (fibers exPushed 1) = Some 1"
    by (simp add: exPushed_fields exFibers_def)
  have "Suc 2 = (3::nat)" by simp
  with invalidate_false_only_flag[OF h, of 2] h show ?thesis
    by auto
qed

lemma getMasked_did:
  "getMaskedContext f u s = Inr (m, s') \<Longrightarrow> didPerformWorkStackCursor s' = didPerformWorkStackCursor s"
  by (auto simp: getMaskedContext_def createMaskedContext_def cacheContext_def alloc_def
           split: option.splits if_splits sum.splits prod.splits)

lemma processChild_did:
  "processChildContext f u s = Inr (m, s') \<Longrightarrow> didPerformWorkStackCursor s' = didPerformWorkStackCursor s"
  by (auto simp: processChildContext_def warnMissingGetChildContext_def alloc_def Let_def
           split: option.splits if_splits sum.splits prod.splits list.splits)

lemma rev_tl_nth: "i < length (tl xs) \<Longrightarrow> rev (tl xs) ! i = rev xs ! i"
  by (cases xs) (simp_all add: nth_append)

text \<open>What each operation does to the frames of the did-perform-work cursor.\<close>

lemma pushContextProvider_flag_frames:
  "frames (didPerformWorkStackCursor (snd (pushContextProvider f s))) =
     (if isContextProvider (fibers s f)
      then (f, hasContextChanged s) # frames (didPerformWorkStackCursor s)
      else frames (didPerformWorkStackCursor s))"
  by (simp add: pushContextProvider_def Let_def frames_push hasContextChanged_def)

lemma popContextProvider_flag_frames:
  "frames (didPerformWorkStackCursor (popContextProvider f s)) =
     (if isContextProvider (fibers s f)
      then tl (frames (didPerformWorkStackCursor s))
      else frames (didPerformWorkStackCursor s))"
  by (simp add: popContextProvider_def Let_def frames_pop)

lemma popTopLevelContextObject_flag_frames:
  "frames (didPerformWorkStackCursor (popTopLevelContextObject f s)) =
     tl (frames (didPerformWorkStackCursor s))"
  by (simp add: popTopLevelContextObject_def Let_def frames_pop)

lemma pushTopLevelContextObject_flag_frames:
  "pushTopLevelContextObject f c d s = Inr s' \<Longrightarrow>
   frames (didPerformWorkStackCursor s') = (f, d) # frames (didPerformWorkStackCursor s)"
  by (auto simp: pushTopLevelContextObject_def Let_def frames_push split: if_splits)

lemma invalidateContextProvider_flag_frames:
  "invalidateContextProvider f d s = Inr s' \<Longrightarrow>
   frames (didPerformWorkStackCursor s') = (f, d) # tl (frames (didPerformWorkStackCursor s))"
  by (cases d)
     (auto simp: invalidateContextProvider_def Let_def frames_push frames_pop
           dest!: processChild_did split: option.splits sum.splits)

lemma step_flag_frames:
  assumes "step opn s = Inr s'"
  shows "frames (didPerformWorkStackCursor s') = frames (didPerformWorkStackCursor s)
       \<or> (\<exists>fr. frames (didPerformWorkStackCursor s') = fr # frames (didPerformWorkStackCursor s))
       \<or> frames (didPerformWorkStackCursor s') = tl (frames (didPerformWorkStackCursor s))
       \<or> (\<exists>f d. opn = InvalidateContextProvider f d \<and>
             frames (didPerformWorkStackCursor s') = (f, d) # tl (frames (didPerformWorkStackCursor s)))"
proof (cases opn)
  case (PushContextProvider f)
  with assms have "s' = snd (pushContextProvider f s)" by simp
  then show ?thesis by (simp add: pushContextProvider_flag_frames)
next
  case (InvalidateContextProvider f d)
  with assms show ?thesis by (simp add: invalidateContextProvider_flag_frames)
next
  case (PopContextProvider f)
  with assms have "s' = popContextProvider f s" by simp
  then show ?thesis by (simp add: popContextProvider_flag_frames)
next
  case (PushTopLevelContextObject f c d)
  with assms show ?thesis by (simp add: pushTopLevelContextObject_flag_frames)
next
  case (PopTopLevelContextObject f)
  with assms have "s' = popTopLevelContextObject f s" by simp
  then show ?thesis by (simp add: popTopLevelContextObject_flag_frames)
next
  case (GetMaskedContext f u)
  with assms show ?thesis
    by (cases "getMaskedContext f u s") (auto dest: getMasked_did)
next
  case (CacheContext f u m)
  with assms show ?thesis
    by (auto simp: cacheContext_def split: option.splits)
next
  case (ProcessChildContext f c)
  with assms show ?thesis
    by (cases "processChildContext f c s") (auto dest: processChild_did)
qed

lemma flag_becomes_true:
  assumes st: "step opn s = Inr s'"
      and i: "i < flagDepth s" "i < flagDepth s'"
      and before: "snd (flagAt s i) = False"
      and after: "snd (flagAt s' i) = True"
  shows "opn = InvalidateContextProvider (fst (flagAt s' i)) True \<and> Suc i = flagDepth s"
proof -
  let ?a = "frames (didPerformWorkStackCursor s)"
  let ?b = "frames (didPerformWorkStackCursor s')"
  from step_flag_frames[OF st] consider
    (same) "?b = ?a" | (pushed) fr where "?b = fr # ?a" | (popped) "?b = tl ?a"
    | (replaced) f d where "opn = InvalidateContextProvider f d" "?b = (f, d) # tl ?a"
    by blast
  then show ?thesis
  proof cases
    case same
    with before after show ?thesis by (simp add: flagAt_def)
  next
    case pushed
    with i before after show ?thesis by (simp add: flagAt_def flagDepth_def nth_append)
  next
    case popped
    with i before after show ?thesis by (simp add: flagAt_def flagDepth_def rev_tl_nth)
  next
    case replaced
    show ?thesis
    proof (cases "i < length (tl ?a)")
      case True
      then have "rev ?b ! i = rev ?a ! i"
        using replaced(2) by (simp add: nth_append rev_tl_nth)
      with before after show ?thesis by (simp add: flagAt_def)
    next
      case False
      with i replaced(2) have ii: "i = length (tl ?a)" by (simp add: flagDepth_def)
      then have "rev ?b ! i = (f, d)" using replaced(2) by (simp add: nth_append)
      moreover from i(1) ii have "Suc i = length ?a" by (simp add: flagDepth_def)
      ultimately show ?thesis using after replaced(1) by (simp add: flagAt_def flagDepth_def)
    qed
  qed
qed

text \<open>
  C6. \<open>pushContextProvider\<close> pushes, for a provider, the flag that is current
  at that moment (and pushes nothing for any other fiber); a frame whose flag
  is false can only turn true by \<open>invalidateContextProvider\<close> called with
  true for the owner the frame then has, and only as the top frame;
  \<open>hasContextChanged\<close> reads the flag of the top frame (the cursor's default
  when there is no frame).
\<close>

theorem did_change_flag_inherited:
  "(isContextProvider (fibers s p) \<longrightarrow>
      frames (didPerformWorkStackCursor (snd (pushContextProvider p s)))
        = (p, hasContextChanged s) # frames (didPerformWorkStackCursor s) \<and>
      hasContextChanged (snd (pushContextProvider p s)) = hasContextChanged s)
   \<and> (\<not> isContextProvider (fibers s p) \<longrightarrow> snd (pushContextProvider p s) = s)
   \<and> (step opn t = Inr t' \<and> i < flagDepth t \<and> i < flagDepth t' \<and>
      \<not> snd (flagAt t i) \<and> snd (flagAt t' i) \<longrightarrow>
        opn = InvalidateContextProvider (fst (flagAt t' i)) True \<and> Suc i = flagDepth t)
   \<and> hasContextChanged s =
       (case frames (didPerformWorkStackCursor s) of
          [] \<Rightarrow> default_value (didPerformWorkStackCursor s)
        | fr # _ \<Rightarrow> snd fr)"
proof (intro conjI impI)
  assume "isContextProvider (fibers s p)"
  then show "frames (didPerformWorkStackCursor (snd (pushContextProvider p s)))
        = (p, hasContextChanged s) # frames (didPerformWorkStackCursor s)"
    by (simp add: pushContextProvider_flag_frames)
  then show "hasContextChanged (snd (pushContextProvider p s)) = hasContextChanged s"
    by (simp add: hasContextChanged_def current_def)
next
  assume "\<not> isContextProvider (fibers s p)"
  then show "snd (pushContextProvider p s) = s"
    by (simp add: pushContextProvider_def)
next
  assume a: "step opn t = Inr t' \<and> i < flagDepth t \<and> i < flagDepth t' \<and>
      \<not> snd (flagAt t i) \<and> snd (flagAt t' i)"
  then have r: "opn = InvalidateContextProvider (fst (flagAt t' i)) True \<and> Suc i = flagDepth t"
    using flag_becomes_true[of opn t t' i] by simp
  from r show "opn = InvalidateContextProvider (fst (flagAt t' i)) True" by simp
  from r show "Suc i = flagDepth t" by simp
next
  show "hasContextChanged s =
       (case frames (didPerformWorkStackCursor s) of
          [] \<Rightarrow> default_value (didPerformWorkStackCursor s)
        | fr # _ \<Rightarrow> snd fr)"
    by (simp add: hasContextChanged_def current_def)
qed

theorem did_change_flag_inherited_witness:
  "isContextProvider (fibers exState 1) \<and>
   frames (didPerformWorkStackCursor (snd (pushContextProvider 1 exState)))
     = [(1, False), (0, False)] \<and>
   \<not> isContextProvider (fibers exState 3) \<and>
   snd (pushContextProvider 3 exState) = exState \<and>
   step (InvalidateContextProvider 1 True) exPushed = Inr exInvalidated \<and>
   1 < flagDepth exPushed \<and> 1 < flagDepth exInvalidated \<and>
   \<not> snd (flagAt exPushed 1) \<and> snd (flagAt exInvalidated 1) \<and>
   fst (flagAt exInvalidated 1) = 1 \<and> Suc 1 = flagDepth exPushed"
proof -
  have p1: "isContextProvider (fibers exState 1)" and p3: "\<not> isContextProvider (fibers exState 3)"
    by (simp_all add: ex_defs isContextProvider_def)
  have hc: "hasContextChanged exState = False"
           "frames (didPerformWorkStackCursor exState) = [(0, False)]"
    by (simp_all add: hasContextChanged_def current_def exState_def push_def createCursor_def)
  have st: "step (InvalidateContextProvider 1 True) exPushed = Inr exInvalidated"
    by (simp only: step.simps exInvalidated_eq)
  have fi: "frames (didPerformWorkStackCursor exInvalidated) = [(1, True), (0, False)]"
    using invalidateContextProvider_flag_frames[OF exInvalidated_eq]
    by (simp add: exPushed_fields)
  have fl: "1 < flagDepth exPushed" "1 < flagDepth exInvalidated"
           "\<not> snd (flagAt exPushed 1)" "snd (flagAt exInvalidated 1)"
           "fst (flagAt exInvalidated 1) = 1"
    by (simp_all add: flagDepth_def flagAt_def fi exPushed_fields)
  from did_change_flag_inherited[of exState 1 "InvalidateContextProvider 1 True" exPushed exInvalidated 1]
       did_change_flag_inherited[of exState 3 "InvalidateContextProvider 1 True" exPushed exInvalidated 1]
       p1 p3 hc st fl
  show ?thesis by simp
qed

subsection \<open>Looking up the context from a mounted fiber\<close>

lemma walkToProvider_chain:
  "returnChain s n ms \<Longrightarrow> walkToProvider s n = walkToProvider s (last (n # ms))"
proof (induction ms arbitrary: n)
  case Nil
  then show ?case by simp
next
  case (Cons m ms)
  then have "walkToProvider s n = walkToProvider s m"
    by (subst walkToProvider.simps) simp
  with Cons show ?case by simp
qed

text \<open>
  C7. For a mounted class component, \<open>findCurrentUnmaskedContext\<close> follows
  \<open>return\<close> and stops at the first provider it meets, returning the merged
  context stored on that provider's instance; if it meets the host root first,
  it returns the \<open>context\<close> of the root's \<open>stateNode\<close>; if it meets a fiber
  without parent first, it fails with the detached-subtree invariant.
\<close>

theorem findCurrentUnmaskedContext_nearest:
  assumes "isFiberMounted s f" and "tag (fibers s f) = ClassComponent"
      and "returnChain s f ms"
  shows "(isContextProvider (fibers s (last (f # ms))) \<and>
          stateNode (fibers s (last (f # ms))) = Some i \<longrightarrow>
            findCurrentUnmaskedContext isFiberMounted f s =
              Some (Inr (reactInternalMemoizedMergedChildContext (instances s i))))
       \<and> (tag (fibers s (last (f # ms))) = HostRoot \<and>
          stateNode (fibers s (last (f # ms))) = Some i \<longrightarrow>
            findCurrentUnmaskedContext isFiberMounted f s =
              Some (Inr (context_obj (instances s i))))
       \<and> (tag (fibers s (last (f # ms))) \<noteq> HostRoot \<and>
          \<not> isContextProvider (fibers s (last (f # ms))) \<and>
          return (fibers s (last (f # ms))) = None \<longrightarrow>
            findCurrentUnmaskedContext isFiberMounted f s = Some (Inl DetachedSubtreeParent))"
proof -
  let ?e = "last (f # ms)"
  have "findCurrentUnmaskedContext isFiberMounted f s = walkToProvider s ?e"
    using assms by (simp add: findCurrentUnmaskedContext_def walkToProvider_chain)
  also have "walkToProvider s ?e =
     (if tag (fibers s ?e) \<noteq> HostRoot then
        (if isContextProvider (fibers s ?e) then
           (case stateNode (fibers s ?e) of
              None \<Rightarrow> Some (Inl TypeError)
            | Some i \<Rightarrow> Some (Inr (reactInternalMemoizedMergedChildContext (instances s i))))
         else
           (case return (fibers s ?e) of
              None \<Rightarrow> Some (Inl DetachedSubtreeParent)
            | Some parent \<Rightarrow> walkToProvider s parent))
      else
        (case stateNode (fibers s ?e) of
           None \<Rightarrow> Some (Inl TypeError)
         | Some i \<Rightarrow> Some (Inr (context_obj (instances s i)))))"
    by (rule walkToProvider.simps)
  finally show ?thesis
    by (auto simp: isContextProvider_def)
qed

theorem findCurrentUnmaskedContext_nearest_witness:
  "returnChain exState 3 [9, 2] \<and> isContextProvider (fibers exState 2) \<and>
   findCurrentUnmaskedContext (\<lambda>_ _. True) 3 exState = Some (Inr (Some 3)) \<and>
   reactInternalMemoizedMergedChildContext (instances exState 1) = Some 2 \<and>
   returnChain exState 8 [0] \<and> tag (fibers exState 0) = HostRoot \<and>
   findCurrentUnmaskedContext (\<lambda>_ _. True) 8 exState = Some (Inr (Some 1)) \<and>
   returnChain exState 7 [] \<and> return (fibers exState 7) = None \<and>
   findCurrentUnmaskedContext (\<lambda>_ _. True) 7 exState = Some (Inl DetachedSubtreeParent)"
proof -
  have t: "tag (fibers exState 3) = ClassComponent" "tag (fibers exState 8) = ClassComponent"
          "tag (fibers exState 7) = ClassComponent"
    by (simp_all add: ex_defs)
  have c: "returnChain exState 3 [9, 2]" "returnChain exState 8 [0]" "returnChain exState 7 []"
    by (simp_all add: ex_defs isContextProvider_def)
  have e3: "isContextProvider (fibers exState (last [3, 9, 2]))"
           "stateNode (fibers exState (last [3, 9, 2])) = Some 2"
           "reactInternalMemoizedMergedChildContext (instances exState 2) = Some 3"
           "reactInternalMemoizedMergedChildContext (instances exState 1) = Some 2"
    by (simp_all add: ex_defs isContextProvider_def)
  have e8: "tag (fibers exState (last [8, 0])) = HostRoot"
           "stateNode (fibers exState (last [8, 0])) = Some 0"
           "context_obj (instances exState 0) = Some 1"
    by (simp_all add: ex_defs)
  have e7: "tag (fibers exState (last [7])) \<noteq> HostRoot"
           "\<not> isContextProvider (fibers exState (last [7]))"
           "return (fibers exState (last [7])) = None"
    by (simp_all add: ex_defs isContextProvider_def)
  have 1: "findCurrentUnmaskedContext (\<lambda>_ _. True) 3 exState = Some (Inr (Some 3))"
    using findCurrentUnmaskedContext_nearest[of "\<lambda>_ _. True" exState 3 "[9, 2]" 2, OF _ t(1) c(1)] e3
    by simp
  have 2: "findCurrentUnmaskedContext (\<lambda>_ _. True) 8 exState = Some (Inr (Some 1))"
    using findCurrentUnmaskedContext_nearest[of "\<lambda>_ _. True" exState 8 "[0]" 0, OF _ t(2) c(2)] e8
    by simp
  have 3: "findCurrentUnmaskedContext (\<lambda>_ _. True) 7 exState = Some (Inl DetachedSubtreeParent)"
    using findCurrentUnmaskedContext_nearest[of "\<lambda>_ _. True" exState 7 "[]" 0, OF _ t(3) c(3)] e7
    by simp
  from c e3(1,4) e8(1) e7(3) 1 2 3 show ?thesis by simp
qed

subsection \<open>The root frame\<close>

text \<open>
  C8. The guard of \<open>pushTopLevelContextObject\<close> reads the property \<open>cursor\<close>
  of the context cursor, which nothing sets. Evaluated on a state where the
  root frame is already on the stack, the call does not fail: it pushes a
  second root frame.
\<close>

theorem pushTopLevelContextObject_with_live_root:
  "pushTopLevelContextObject 0 1 False (initialState True exFibers exInstances) = Inr exRootPushed \<and>
   frames (contextStackCursor exRootPushed) = [(0, 1)] \<and>
   pushTopLevelContextObject 0 2 True exRootPushed =
     Inr (exRootPushed\<lparr>contextStackCursor := push (contextStackCursor exRootPushed) 2 0,
                       didPerformWorkStackCursor :=
                         push (didPerformWorkStackCursor exRootPushed) True 0\<rparr>) \<and>
   frames (push (contextStackCursor exRootPushed) 2 0) = [(0, 2), (0, 1)]"
  by (simp add: exRootPushed_def pushTopLevelContextObject_def initialState_def
        createCursor_def push_def Let_def)

end
